theory Spec2Isabelle
  imports Complex_Main
begin

section \<open>Data model of \<open>algo_strategy.py\<close>\<close>

text \<open>
  A location is the two-element list \<open>[x, y]\<close> of the source, kept as a pair of integers.
  The six unit kinds are the global shorthands read from the configuration in
  \<open>on_game_start\<close>.
\<close>

type_synonym location = "int \<times> int"

datatype unit_type = FILTER | ENCRYPTOR | DESTRUCTOR | PING | EMP | SCRAMBLER

datatype error = AttributeError | ValueError

text \<open>A unit as returned by \<open>get_attackers\<close>: the source only takes the length of that list.\<close>

record game_unit =
  unit_type :: unit_type
  player_index :: int

text \<open>One call \<open>game_state.attempt_spawn(unit_type, locations, num)\<close>; \<open>num\<close> defaults to 1, and
  a single location is the one-element list.\<close>

datatype attempt = Attempt unit_type "location list" int

text \<open>
  The \<open>gamelib\<close> package and Python's \<open>random\<close> are not part of the repository's source.
  Their operations are parameters of the model, over an arbitrary type \<open>'b\<close> of boards
  (grid occupancy and resource pools):
  \<^item> \<open>get_resource_BITS\<close> is \<open>game_state.get_resource(game_state.BITS)\<close>, a number
    that need not be whole;
  \<^item> \<open>find_path_to_edge\<close> and \<open>get_attackers\<close> are the methods of these names;
  \<^item> \<open>board_after_spawn\<close> is what \<open>attempt_spawn\<close> does to the board;
  \<^item> \<open>randint_is_1 t c\<close> tells whether \<open>random.randint(0, 1)\<close> draws 1 at iteration \<open>c\<close>
    of the stalling loop of turn \<open>t\<close>.
\<close>

record 'b gamelib =
  get_resource_BITS :: "'b \<Rightarrow> real"
  find_path_to_edge :: "'b \<Rightarrow> location \<Rightarrow> location list"
  get_attackers :: "'b \<Rightarrow> location \<Rightarrow> int \<Rightarrow> game_unit list"
  board_after_spawn :: "unit_type \<Rightarrow> location list \<Rightarrow> int \<Rightarrow> 'b \<Rightarrow> 'b"
  randint_is_1 :: "int \<Rightarrow> int \<Rightarrow> bool"

text \<open>
  The \<open>GameState\<close> object of one turn: its turn number, the configured damage of every unit
  kind (\<open>gamelib.GameUnit(u, game_state.config).damage\<close>), the board, and the
  \<open>attempt_spawn\<close> calls made on it so far, in order.
\<close>

record 'b game_state =
  turn_number :: int
  unit_damage :: "unit_type \<Rightarrow> int"
  board :: 'b
  attempts :: "attempt list"

text \<open>
  The attributes of \<open>AlgoStrategy\<close>. \<open>best_location\<close> is assigned nowhere but on turn 3;
  \<open>None\<close> is the attribute not yet assigned.
\<close>

record algo =
  config :: "unit_type \<Rightarrow> int"
  scored_on_locations :: "location list"
  funnel_left :: bool
  best_location :: "location option"

text \<open>A breach event \<open>breach\<close> of an action frame: \<open>breach[0]\<close> and \<open>breach[4]\<close>.\<close>

record breach =
  breach_location :: location
  breach_owner :: int

section \<open>The operations\<close>

text \<open>
  \<open>on_game_start\<close> runs once, on the object that \<open>__init__\<close> has just made: it stores the
  configuration (kept here as the damage table that \<open>GameUnit\<close> reads from it), the empty
  log and \<open>funnel_left = True\<close>, and assigns no \<open>best_location\<close>. A turn state is the turn
  number with the board.
\<close>

definition on_game_start :: "(unit_type \<Rightarrow> int) \<Rightarrow> algo" where
  "on_game_start cfg =
     \<lparr>config = cfg, scored_on_locations = [], funnel_left = True, best_location = None\<rparr>"

definition GameState :: "(unit_type \<Rightarrow> int) \<Rightarrow> int \<times> 'b \<Rightarrow> 'b game_state" where
  "GameState cfg turn_state =
     \<lparr>turn_number = fst turn_state, unit_damage = cfg, board = snd turn_state, attempts = []\<rparr>"

definition attempt_spawn ::
  "'b gamelib \<Rightarrow> unit_type \<Rightarrow> location list \<Rightarrow> int \<Rightarrow> 'b game_state \<Rightarrow> 'b game_state" where
  "attempt_spawn L u locations num g =
     g\<lparr>board := board_after_spawn L u locations num (board g),
       attempts := attempts g @ [Attempt u locations num]\<rparr>"

subsection \<open>The fixed placement patterns\<close>

definition build_defenses :: "'b gamelib \<Rightarrow> 'b game_state \<Rightarrow> 'b game_state" where
  "build_defenses L g =
     (let destructor_locations =
            [(x, 13). x \<leftarrow> [0..27], x \<notin> set [3, 6, 10, 12, 15, 17, 21, 24]]
      in attempt_spawn L DESTRUCTOR destructor_locations 1 g)"

fun build_reactive_defense ::
  "'b gamelib \<Rightarrow> location list \<Rightarrow> 'b game_state \<Rightarrow> 'b game_state" where
  "build_reactive_defense L [] g = g"
| "build_reactive_defense L (location # rest) g =
     (let build_location = (fst location, snd location + 3)
      in build_reactive_defense L rest (attempt_spawn L DESTRUCTOR [build_location] 1 g))"

text \<open>The first definition of \<open>build_additional_defenses\<close> (line 132), over \<open>range(1, 27)\<close>.\<close>

definition additional_defenses_locations_1 :: "location list" where
  "additional_defenses_locations_1 =
     concat (map (\<lambda>i. [(i, 12), (27 - i, 12)])
       (filter (\<lambda>i. i \<notin> set [3, 6, 10, 12, 15, 17, 21, 24]) [1..26]))"

definition build_additional_defenses_1 :: "'b gamelib \<Rightarrow> 'b game_state \<Rightarrow> 'b game_state" where
  "build_additional_defenses_1 L g = attempt_spawn L DESTRUCTOR additional_defenses_locations_1 1 g"

text \<open>The second definition (line 153), over \<open>range(1, 13)\<close>. It comes later in the class
  body, so it is the method that \<open>funnel_strategy\<close> calls.\<close>

definition additional_defenses_locations_2 :: "location list" where
  "additional_defenses_locations_2 =
     concat (map (\<lambda>i. [(i, 12), (27 - i, 12)])
       (filter (\<lambda>i. i \<notin> set [3, 6, 10, 12, 15, 17, 21, 24]) [1..12]))"

definition build_additional_defenses :: "'b gamelib \<Rightarrow> 'b game_state \<Rightarrow> 'b game_state" where
  "build_additional_defenses L g = attempt_spawn L DESTRUCTOR additional_defenses_locations_2 1 g"

definition build_better_tunnel :: "'b gamelib \<Rightarrow> 'b game_state \<Rightarrow> 'b game_state" where
  "build_better_tunnel L g =
     (let el = [(5, 11), (6, 10), (7, 9), (8, 8), (9, 7), (10, 6), (11, 5), (12, 4),
                (14, 3), (15, 4), (16, 5), (17, 6), (18, 7), (19, 8)]
      in attempt_spawn L ENCRYPTOR el 1 g)"

definition build_defenses3 :: "'b gamelib \<Rightarrow> 'b game_state \<Rightarrow> 'b game_state" where
  "build_defenses3 L g =
     (let destructor_locations =
            concat (map (\<lambda>i. [(i, 11), (27 - i, 11)])
              (filter (\<lambda>i. i \<notin> set [3, 6, 10, 12, 15, 17, 21, 24]) [2..25]))
      in attempt_spawn L DESTRUCTOR destructor_locations 1 g)"

definition right_funnel_locations :: "location list" where
  "right_funnel_locations =
     [(3, 11), (4, 11), (5, 10), (6, 9), (7, 8), (8, 7), (9, 6), (10, 5), (11, 4),
      (12, 3), (13, 2), (14, 2), (15, 3), (16, 4), (17, 5), (18, 6), (19, 7),
      (20, 8)]"

definition build_right_funnel :: "'b gamelib \<Rightarrow> 'b game_state \<Rightarrow> 'b game_state" where
  "build_right_funnel L g = attempt_spawn L ENCRYPTOR right_funnel_locations 1 g"

definition left_funnel_locations :: "location list" where
  "left_funnel_locations =
     [(24, 11), (23, 11), (22, 10), (21, 9), (20, 8), (19, 7), (18, 6), (17, 5),
      (16, 4), (15, 3), (14, 2), (12, 3), (11, 4), (10, 5), (9, 6), (8, 7), (7, 8)]"

definition build_left_funnel :: "'b gamelib \<Rightarrow> 'b game_state \<Rightarrow> 'b game_state" where
  "build_left_funnel L g = attempt_spawn L ENCRYPTOR left_funnel_locations 1 g"

subsection \<open>Stalling with scramblers\<close>

text \<open>The \<open>while\<close> loop of \<open>stall_with_scramblers\<close>; \<open>deploy_locations\<close> is \<open>[[9, 4], [18, 4]]\<close>.\<close>

function stall_loop :: "'b gamelib \<Rightarrow> int \<Rightarrow> int \<Rightarrow> 'b game_state \<Rightarrow> 'b game_state" where
  "stall_loop L count quarter g =
     (if count < quarter \<and> length [(9, 4), (18, 4) :: location] > 0
      then (let deploy_location = (if randint_is_1 L (turn_number g) count then (18, 4) else (9, 4))
            in stall_loop L (count + 1) quarter (attempt_spawn L SCRAMBLER [deploy_location] 1 g))
      else g)"
  by pat_completeness auto
termination
  by (relation "measure (\<lambda>(L, count, quarter, g). nat (quarter - count))") auto

definition stall_with_scramblers :: "'b gamelib \<Rightarrow> 'b game_state \<Rightarrow> 'b game_state" where
  "stall_with_scramblers L g =
     (let quarter = \<lfloor>get_resource_BITS L (board g) / 4\<rfloor> + 1
      in stall_loop L 0 quarter g)"

subsection \<open>The risk estimate\<close>

text \<open>The inner loop of \<open>least_damage_spawn_location\<close>, with the running \<open>damage\<close>.\<close>

fun path_damage :: "'b gamelib \<Rightarrow> 'b game_state \<Rightarrow> location list \<Rightarrow> int \<Rightarrow> int" where
  "path_damage L g [] damage = damage"
| "path_damage L g (path_location # path) damage =
     path_damage L g path
       (damage + int (length (get_attackers L (board g) path_location 0)) * unit_damage g DESTRUCTOR)"

text \<open>The risk score of one entry location: the body of the outer loop.\<close>

definition location_damage :: "'b gamelib \<Rightarrow> 'b game_state \<Rightarrow> location \<Rightarrow> int" where
  "location_damage L g location = path_damage L g (find_path_to_edge L (board g) location) 0"

text \<open>Python's \<open>min\<close> of a list and \<open>list.index\<close>: both raise \<open>ValueError\<close> when there is
  nothing to return.\<close>

fun py_min :: "int list \<Rightarrow> error + int" where
  "py_min [] = Inl ValueError"
| "py_min (x # xs) = Inr (foldl min x xs)"

fun py_index :: "int list \<Rightarrow> int \<Rightarrow> error + nat" where
  "py_index [] v = Inl ValueError"
| "py_index (x # xs) v =
     (if x = v then Inr 0
      else (case py_index xs v of Inl e \<Rightarrow> Inl e | Inr i \<Rightarrow> Inr (Suc i)))"

definition least_damage_spawn_location ::
  "'b gamelib \<Rightarrow> 'b game_state \<Rightarrow> location list \<Rightarrow> error + location" where
  "least_damage_spawn_location L g location_options =
     (let damages = map (location_damage L g) location_options
      in case py_min damages of
           Inl e \<Rightarrow> Inl e
         | Inr m \<Rightarrow>
             (case py_index damages m of
                Inl e \<Rightarrow> Inl e
              | Inr i \<Rightarrow> Inr (location_options ! i)))"

subsection \<open>The turn\<close>

text \<open>
  \<open>funnel_strategy\<close> returns the attributes and the game state it leaves; when an exception
  is raised, the exception and the game state at that point.
\<close>

definition funnel_strategy ::
  "'b gamelib \<Rightarrow> algo \<Rightarrow> 'b game_state \<Rightarrow> (error \<times> 'b game_state) + (algo \<times> 'b game_state)" where
  "funnel_strategy L self g0 =
     (let g1 = build_defenses L g0;
          g2 = build_reactive_defense L (scored_on_locations self) g1
      in if turn_number g2 < 3 then Inr (self, stall_with_scramblers L g2)
         else if turn_number g2 = 3 then
           (case least_damage_spawn_location L g2 [(3, 10), (24, 10)] of
              Inl e \<Rightarrow> Inl (e, g2)
            | Inr best \<Rightarrow>
                if best = (2, 11)
                then Inr (self\<lparr>best_location := Some best, funnel_left := True\<rparr>,
                          build_left_funnel L g2)
                else Inr (self\<lparr>best_location := Some best, funnel_left := False\<rparr>,
                          build_right_funnel L g2))
         else if turn_number g2 > 3 then
           (let g3 = (if funnel_left self then build_left_funnel L g2
                      else build_right_funnel L g2);
                g4 = build_additional_defenses L g3;
                g5 = build_better_tunnel L g4;
                g6 = build_defenses3 L g5
            in if get_resource_BITS L (board g6) \<ge> 10
               then (case best_location self of
                       None \<Rightarrow> Inl (AttributeError, g6)
                     | Some location \<Rightarrow> Inr (self, attempt_spawn L PING [location] 1000 g6))
               else Inr (self, g6))
         else Inr (self, g2))"

text \<open>
  \<open>on_turn\<close>: a fresh \<open>GameState\<close>, the strategy, then \<open>submit_turn\<close>, which hands over the
  attempts. An exception leaves \<open>on_turn\<close> before anything is submitted.
\<close>

definition on_turn :: "'b gamelib \<Rightarrow> algo \<Rightarrow> int \<times> 'b \<Rightarrow> error + (algo \<times> attempt list)" where
  "on_turn L self turn_state =
     (let game_state = GameState (config self) turn_state
      in case funnel_strategy L self game_state of
           Inl (e, g) \<Rightarrow> Inl e
         | Inr (self', g) \<Rightarrow> Inr (self', attempts g))"

fun on_action_frame :: "algo \<Rightarrow> breach list \<Rightarrow> algo" where
  "on_action_frame self [] = self"
| "on_action_frame self (breach # breaches) =
     (let location = breach_location breach;
          unit_owner_self = (if breach_owner breach = 1 then True else False)
      in if \<not> unit_owner_self
         then on_action_frame
                (self\<lparr>scored_on_locations := scored_on_locations self @ [location]\<rparr>) breaches
         else on_action_frame self breaches)"

text \<open>A match after \<open>on_game_start\<close>: turns and action frames in arrival order. An exception
  in a turn ends the process.\<close>

datatype 'b event = Turn "int \<times> 'b" | ActionFrame "breach list"

fun run :: "'b gamelib \<Rightarrow> algo \<Rightarrow> 'b event list \<Rightarrow> error + algo" where
  "run L self [] = Inr self"
| "run L self (Turn turn_state # events) =
     (case on_turn L self turn_state of
        Inl e \<Rightarrow> Inl e
      | Inr (self', submitted) \<Rightarrow> run L self' events)"
| "run L self (ActionFrame breaches # events) = run L (on_action_frame self breaches) events"

section \<open>Observing a turn\<close>

text \<open>The \<open>attempt_spawn\<close> calls made during \<open>funnel_strategy\<close>, whether it returned or raised.\<close>

definition issued :: "(error \<times> 'b game_state) + (algo \<times> 'b game_state) \<Rightarrow> attempt list" where
  "issued r = (case r of Inl (e, g) \<Rightarrow> attempts g | Inr (self, g) \<Rightarrow> attempts g)"

text \<open>The unit kind of an attempt, and the turn numbers of the turns among some events.\<close>

fun attempt_unit :: "attempt \<Rightarrow> unit_type" where
  "attempt_unit (Attempt u locations num) = u"

fun turn_numbers :: "'b event list \<Rightarrow> int list" where
  "turn_numbers [] = []"
| "turn_numbers (Turn turn_state # events) = fst turn_state # turn_numbers events"
| "turn_numbers (ActionFrame breaches # events) = turn_numbers events"

text \<open>
  The game state in which a turn after turn 3 reads the pool for mobile units: after the
  base and reactive passes, the committed funnel and the three further rows.
\<close>

definition fortified :: "'b gamelib \<Rightarrow> algo \<Rightarrow> 'b game_state \<Rightarrow> 'b game_state" where
  "fortified L self g0 =
     (let g1 = build_defenses L g0;
          g2 = build_reactive_defense L (scored_on_locations self) g1;
          g3 = (if funnel_left self then build_left_funnel L g2 else build_right_funnel L g2);
          g4 = build_additional_defenses L g3;
          g5 = build_better_tunnel L g4
      in build_defenses3 L g5)"

text \<open>
  A contract of the engine that some properties need: placing stationary structures
  (destructors, encryptors) is paid from the structure pool and leaves the pool for mobile
  units as it is.
\<close>

definition stationary_keeps_bits :: "'b gamelib \<Rightarrow> bool" where
  "stationary_keeps_bits L \<longleftrightarrow>
     (\<forall>locations num b.
        get_resource_BITS L (board_after_spawn L DESTRUCTOR locations num b) = get_resource_BITS L b
      \<and> get_resource_BITS L (board_after_spawn L ENCRYPTOR locations num b) = get_resource_BITS L b)"

section \<open>A small concrete engine\<close>

text \<open>
  A board of the example engine: the pool for mobile units, the positions of the opponent's
  destructors, and the entry locations from which no path leads to the edge.
\<close>

record arena =
  bits :: real
  enemy_destructors :: "location list"
  walled :: "location list"

definition damage16 :: "unit_type \<Rightarrow> int" where
  "damage16 u = (if u = DESTRUCTOR then 16 else 0)"

definition enemy_destructor :: game_unit where
  "enemy_destructor = \<lparr>unit_type = DESTRUCTOR, player_index = 1\<rparr>"

text \<open>
  In the example engine a path is two steps long, a destructor reaches the locations at
  squared distance at most 12, a mobile unit costs one unit of the pool each (as many are
  spawned as asked for and affordable), and stationary placements leave the pool alone.
\<close>

definition arena_lib :: "arena gamelib" where
  "arena_lib =
     \<lparr>get_resource_BITS = bits,
      find_path_to_edge =
        (\<lambda>b location. if location \<in> set (walled b) then []
                       else [location, (fst location, snd location + 1)]),
      get_attackers =
        (\<lambda>b location player.
           map (\<lambda>d. enemy_destructor)
             (filter (\<lambda>d. (fst d - fst location)\<^sup>2 + (snd d - snd location)\<^sup>2 \<le> 12)
                (enemy_destructors b))),
      board_after_spawn =
        (\<lambda>u locations num b.
           if u = PING \<or> u = EMP \<or> u = SCRAMBLER
           then b\<lparr>bits := bits b - real_of_int (max 0 (min num \<lfloor>bits b\<rfloor>))\<rparr>
           else b),
      randint_is_1 = (\<lambda>t c. False)\<rparr>"

definition calm :: "real \<Rightarrow> arena" where
  "calm pool = \<lparr>bits = pool, enemy_destructors = [], walled = []\<rparr>"

definition guarded_left :: arena where
  "guarded_left = \<lparr>bits = 5, enemy_destructors = [(3, 13)], walled = []\<rparr>"

definition blocked_right :: arena where
  "blocked_right = \<lparr>bits = 5, enemy_destructors = [(3, 13)], walled = [(24, 10)]\<rparr>"

definition opponent_breach :: "location \<Rightarrow> breach" where
  "opponent_breach location = \<lparr>breach_location = location, breach_owner = 2\<rparr>"

definition own_breach :: "location \<Rightarrow> breach" where
  "own_breach location = \<lparr>breach_location = location, breach_owner = 1\<rparr>"

section \<open>Basic facts\<close>


lemma attempt_spawn_simps [simp]:
  "turn_number (attempt_spawn L u locs n g) = turn_number g"
  "unit_damage (attempt_spawn L u locs n g) = unit_damage g"
  "attempts (attempt_spawn L u locs n g) = attempts g @ [Attempt u locs n]"
  "board (attempt_spawn L u locs n g) = board_after_spawn L u locs n (board g)"
  by (simp_all add: attempt_spawn_def)

lemma build_reactive_defense_turn [simp]:
  "turn_number (build_reactive_defense L locs g) = turn_number g"
  by (induction locs arbitrary: g) (simp_all add: Let_def)

lemma build_reactive_defense_damage [simp]:
  "unit_damage (build_reactive_defense L locs g) = unit_damage g"
  by (induction locs arbitrary: g) (simp_all add: Let_def)

lemma build_reactive_defense_attempts:
  "attempts (build_reactive_defense L locs g) =
     attempts g @ map (\<lambda>location. Attempt DESTRUCTOR [(fst location, snd location + 3)] 1) locs"
  by (induction locs arbitrary: g) (simp_all add: Let_def)

lemma path_damage_sum:
  "path_damage L g path d =
     d + (\<Sum>p\<leftarrow>path. int (length (get_attackers L (board g) p 0)) * unit_damage g DESTRUCTOR)"
  by (induction path arbitrary: d) simp_all

lemma foldl_min_Min: "foldl min (x::int) xs = Min (set (x # xs))"
proof (induction xs arbitrary: x)
  case Nil
  show ?case by simp
next
  case (Cons y ys)
  have "foldl min x (y # ys) = foldl min (min x y) ys" by simp
  also have "\<dots> = Min (set (min x y # ys))" by (rule Cons.IH)
  also have "\<dots> = Min (set (x # y # ys))"
    by (cases ys) (simp_all add: min.assoc)
  finally show ?case .
qed

lemma py_index_first:
  "v \<in> set xs \<Longrightarrow> \<exists>i. py_index xs v = Inr i \<and> i < length xs \<and> xs ! i = v \<and> (\<forall>j<i. xs ! j \<noteq> v)"
proof (induction xs)
  case Nil
  then show ?case by simp
next
  case (Cons x xs)
  show ?case
  proof (cases "x = v")
    case True
    then show ?thesis by simp
  next
    case False
    with Cons.prems have "v \<in> set xs" by simp
    from Cons.IH[OF this] obtain i where i: "py_index xs v = Inr i" "i < length xs" "xs ! i = v" "\<forall>j<i. xs ! j \<noteq> v"
      by blast
    have "\<forall>j<Suc i. (x # xs) ! j \<noteq> v"
      using False i(4) by (auto simp: less_Suc_eq_0_disj)
    with False i show ?thesis by simp
  qed
qed

lemma least_damage_first_min:
  assumes "opts \<noteq> []"
  shows "\<exists>i. least_damage_spawn_location L g opts = Inr (opts ! i) \<and> i < length opts
           \<and> (\<forall>j<length opts. location_damage L g (opts ! i) \<le> location_damage L g (opts ! j))
           \<and> (\<forall>j<i. location_damage L g (opts ! i) < location_damage L g (opts ! j))"
proof -
  let ?ds = "map (location_damage L g) opts"
  from assms obtain d ds where ds: "?ds = d # ds" by (cases opts) auto
  let ?m = "Min (set ?ds)"
  have pm: "py_min ?ds = Inr ?m" unfolding ds by (simp add: foldl_min_Min)
  have ne: "set ?ds \<noteq> {}" using assms by simp
  have "?m \<in> set ?ds" using Min_in[OF _ ne] by simp
  from py_index_first[OF this] obtain i where
    i: "py_index ?ds ?m = Inr i" "i < length ?ds" "?ds ! i = ?m" "\<forall>j<i. ?ds ! j \<noteq> ?m"
    by blast
  have le: "\<And>j. j < length opts \<Longrightarrow> ?m \<le> location_damage L g (opts ! j)"
  proof -
    fix j assume j: "j < length opts"
    then have "location_damage L g (opts ! j) \<in> set ?ds" by (metis length_map nth_map nth_mem)
    then show "?m \<le> location_damage L g (opts ! j)" by (simp del: set_map)
  qed
  have ii: "location_damage L g (opts ! i) = ?m" using i(2,3) by simp
  have lt: "\<forall>j<i. location_damage L g (opts ! i) < location_damage L g (opts ! j)"
  proof (intro allI impI)
    fix j assume j: "j < i"
    then have jl: "j < length opts" using i(2) by simp
    have "?ds ! j \<noteq> ?m" using i(4) j by blast
    then have "location_damage L g (opts ! j) \<noteq> ?m" using jl by simp
    with le[OF jl] show "location_damage L g (opts ! i) < location_damage L g (opts ! j)"
      unfolding ii by linarith
  qed
  have "least_damage_spawn_location L g opts = Inr (opts ! i)"
    unfolding least_damage_spawn_location_def Let_def pm using i(1) by simp
  with i(2) le lt ii show ?thesis by (intro exI[of _ i]) simp
qed

lemma builder_attempts [simp]:
  "attempts (build_right_funnel L g) = attempts g @ [Attempt ENCRYPTOR right_funnel_locations 1]"
  "attempts (build_left_funnel L g) = attempts g @ [Attempt ENCRYPTOR left_funnel_locations 1]"
  "attempts (build_additional_defenses L g) = attempts g @ [Attempt DESTRUCTOR additional_defenses_locations_2 1]"
  "attempts (build_additional_defenses_1 L g) = attempts g @ [Attempt DESTRUCTOR additional_defenses_locations_1 1]"
  by (simp_all add: build_right_funnel_def build_left_funnel_def build_additional_defenses_def
        build_additional_defenses_1_def)

lemma builder_turn [simp]:
  "turn_number (build_defenses L g) = turn_number g"
  "turn_number (build_right_funnel L g) = turn_number g"
  "turn_number (build_left_funnel L g) = turn_number g"
  "turn_number (build_additional_defenses L g) = turn_number g"
  "turn_number (build_better_tunnel L g) = turn_number g"
  "turn_number (build_defenses3 L g) = turn_number g"
  by (simp_all add: build_defenses_def build_right_funnel_def build_left_funnel_def
        build_additional_defenses_def build_better_tunnel_def build_defenses3_def Let_def)

lemma builder_damage [simp]:
  "unit_damage (build_defenses L g) = unit_damage g"
  by (simp_all add: build_defenses_def Let_def)

lemma build_defenses_attempts:
  "\<exists>locs. attempts (build_defenses L g) = attempts g @ [Attempt DESTRUCTOR locs 1]"
  by (simp add: build_defenses_def Let_def)

lemma build_better_tunnel_attempts:
  "\<exists>locs. attempts (build_better_tunnel L g) = attempts g @ [Attempt ENCRYPTOR locs 1]"
  by (simp add: build_better_tunnel_def Let_def)

lemma build_defenses3_attempts:
  "\<exists>locs. attempts (build_defenses3 L g) = attempts g @ [Attempt DESTRUCTOR locs 1]"
  by (simp add: build_defenses3_def Let_def)

lemma stall_loop_attempts:
  "\<exists>as. attempts (stall_loop L c q g) = attempts g @ as \<and> (\<forall>a\<in>set as. \<exists>l. a = Attempt SCRAMBLER l 1)"
proof (induction L c q g rule: stall_loop.induct)
  case (1 L count quarter g)
  show ?case
  proof (cases "count < quarter")
    case True
    let ?loc = "if randint_is_1 L (turn_number g) count then (18, 4) else (9, 4) :: location"
    let ?g = "attempt_spawn L SCRAMBLER [?loc] 1 g"
    have "\<exists>as. attempts (stall_loop L (count + 1) quarter ?g) = attempts ?g @ as
             \<and> (\<forall>a\<in>set as. \<exists>l. a = Attempt SCRAMBLER l 1)"
      using "1.IH"[of ?loc] True by simp
    then obtain as where as: "attempts (stall_loop L (count + 1) quarter ?g) = attempts ?g @ as"
      "\<forall>a\<in>set as. \<exists>l. a = Attempt SCRAMBLER l 1" by blast
    have eq: "stall_loop L count quarter g = stall_loop L (count + 1) quarter ?g"
      using True by (subst stall_loop.simps) (simp add: Let_def)
    show ?thesis unfolding eq using as
      by (intro exI[of _ "Attempt SCRAMBLER [?loc] 1 # as"]) auto
  next
    case False
    then show ?thesis by (subst stall_loop.simps) simp
  qed
qed

lemma issued_prefix:
  "\<exists>d rest. issued (funnel_strategy L self g) =
     attempts g @ Attempt DESTRUCTOR d 1
       # map (\<lambda>location. Attempt DESTRUCTOR [(fst location, snd location + 3)] 1) (scored_on_locations self)
       @ rest"
proof -
  obtain d where d: "attempts (build_defenses L g) = attempts g @ [Attempt DESTRUCTOR d 1]"
    using build_defenses_attempts by blast
  let ?g2 = "build_reactive_defense L (scored_on_locations self) (build_defenses L g)"
  have g2: "attempts ?g2 = attempts g @ Attempt DESTRUCTOR d 1
       # map (\<lambda>location. Attempt DESTRUCTOR [(fst location, snd location + 3)] 1) (scored_on_locations self)"
    by (simp add: build_reactive_defense_attempts d)
  have "\<exists>rest. issued (funnel_strategy L self g) = attempts ?g2 @ rest"
  proof -
    obtain as where "attempts (stall_loop L 0 (\<lfloor>get_resource_BITS L (board ?g2) / 4\<rfloor> + 1) ?g2) = attempts ?g2 @ as"
      using stall_loop_attempts by blast
    moreover obtain t where "attempts (build_better_tunnel L (build_additional_defenses L (build_left_funnel L ?g2)))
         = attempts (build_additional_defenses L (build_left_funnel L ?g2)) @ [t]"
      using build_better_tunnel_attempts by blast
    moreover obtain t' where "attempts (build_better_tunnel L (build_additional_defenses L (build_right_funnel L ?g2)))
         = attempts (build_additional_defenses L (build_right_funnel L ?g2)) @ [t']"
      using build_better_tunnel_attempts by blast
    moreover obtain u where "attempts (build_defenses3 L (build_better_tunnel L (build_additional_defenses L (build_left_funnel L ?g2))))
         = attempts (build_better_tunnel L (build_additional_defenses L (build_left_funnel L ?g2))) @ [u]"
      using build_defenses3_attempts by blast
    moreover obtain u' where "attempts (build_defenses3 L (build_better_tunnel L (build_additional_defenses L (build_right_funnel L ?g2))))
         = attempts (build_better_tunnel L (build_additional_defenses L (build_right_funnel L ?g2))) @ [u']"
      using build_defenses3_attempts by blast
    ultimately show ?thesis
      by (auto simp: funnel_strategy_def issued_def Let_def stall_with_scramblers_def
            split: sum.splits option.splits)
  qed
  then show ?thesis unfolding g2 by auto
qed

section \<open>The two additional-defenses rows\<close>

lemma additional_defenses_locations_1_eq:
  "additional_defenses_locations_1 =
     [(1, 12), (26, 12), (2, 12), (25, 12), (4, 12), (23, 12), (5, 12), (22, 12), (7, 12),
      (20, 12), (8, 12), (19, 12), (9, 12), (18, 12), (11, 12), (16, 12), (13, 12), (14, 12),
      (14, 12), (13, 12), (16, 12), (11, 12), (18, 12), (9, 12), (19, 12), (8, 12), (20, 12),
      (7, 12), (22, 12), (5, 12), (23, 12), (4, 12), (25, 12), (2, 12), (26, 12), (1, 12)]"
  by code_simp

lemma additional_defenses_locations_2_eq:
  "additional_defenses_locations_2 =
     [(1, 12), (26, 12), (2, 12), (25, 12), (4, 12), (23, 12), (5, 12), (22, 12), (7, 12),
      (20, 12), (8, 12), (19, 12), (9, 12), (18, 12), (11, 12), (16, 12)]"
  by code_simp

text \<open>
  C8 (as amended). The two definitions of \<open>build_additional_defenses\<close> each make one
  destructor placement attempt, over target sets that differ: the first definition's targets
  are those of the second together with \<open>(13, 12)\<close> and \<open>(14, 12)\<close>, which the second
  never attempts.
\<close>

theorem additional_defenses_targets_differ:
  "attempts (build_additional_defenses_1 L g) = attempts g @ [Attempt DESTRUCTOR additional_defenses_locations_1 1]
   \<and> attempts (build_additional_defenses L g) = attempts g @ [Attempt DESTRUCTOR additional_defenses_locations_2 1]
   \<and> set additional_defenses_locations_1 = set additional_defenses_locations_2 \<union> {(13, 12), (14, 12)}
   \<and> (13, 12) \<notin> set additional_defenses_locations_2
   \<and> (14, 12) \<notin> set additional_defenses_locations_2"
proof -
  have "set additional_defenses_locations_1 = set additional_defenses_locations_2 \<union> {(13, 12), (14, 12)}"
    unfolding additional_defenses_locations_1_eq additional_defenses_locations_2_eq by auto
  moreover have "(13, 12) \<notin> set additional_defenses_locations_2"
    "(14, 12) \<notin> set additional_defenses_locations_2"
    unfolding additional_defenses_locations_2_eq by simp_all
  ultimately show ?thesis by simp
qed

text \<open>C8 as stated fails: the two builders do not attempt the same set of locations.\<close>

theorem additional_defenses_same_targets_counterexample:
  "set additional_defenses_locations_1 \<noteq> set additional_defenses_locations_2"
proof
  assume eq: "set additional_defenses_locations_1 = set additional_defenses_locations_2"
  have "(13, 12) \<in> set additional_defenses_locations_1"
    unfolding additional_defenses_locations_1_eq by simp
  then have "(13, 12) \<in> set additional_defenses_locations_2" using eq by simp
  then show False unfolding additional_defenses_locations_2_eq by simp
qed

section \<open>The breach log and the reactive defenses\<close>

lemma on_action_frame_log:
  "scored_on_locations (on_action_frame self breaches) =
     scored_on_locations self @ map breach_location (filter (\<lambda>b. breach_owner b \<noteq> 1) breaches)"
  by (induction breaches arbitrary: self) (simp_all add: Let_def)

lemma on_action_frame_keeps [simp]:
  "funnel_left (on_action_frame self breaches) = funnel_left self"
  "best_location (on_action_frame self breaches) = best_location self"
  "config (on_action_frame self breaches) = config self"
  by (induction breaches arbitrary: self) (simp_all add: Let_def)

text \<open>
  C3 (as amended). For the breach events of an action frame, the log gains the breach
  locations of the events whose owner is not the player itself, as they are (no offset is
  applied when logging); and the next planning pass issues, for every such breach at
  \<open>(x, y)\<close>, a destructor placement attempt at \<open>(x, y + 3)\<close>.
\<close>

theorem breach_logged_raw_built_translated:
  "scored_on_locations (on_action_frame self breaches) =
     scored_on_locations self @ map breach_location (filter (\<lambda>b. breach_owner b \<noteq> 1) breaches)
   \<and> (\<forall>b\<in>set breaches. breach_owner b \<noteq> 1 \<longrightarrow>
         Attempt DESTRUCTOR [(fst (breach_location b), snd (breach_location b) + 3)] 1
           \<in> set (issued (funnel_strategy L (on_action_frame self breaches) g)))"
proof (intro conjI ballI impI)
  show "scored_on_locations (on_action_frame self breaches) =
     scored_on_locations self @ map breach_location (filter (\<lambda>b. breach_owner b \<noteq> 1) breaches)"
    by (rule on_action_frame_log)
next
  fix b assume b: "b \<in> set breaches" "breach_owner b \<noteq> 1"
  then have "breach_location b \<in> set (scored_on_locations (on_action_frame self breaches))"
    by (simp add: on_action_frame_log)
  moreover obtain d rest where "issued (funnel_strategy L (on_action_frame self breaches) g) =
     attempts g @ Attempt DESTRUCTOR d 1
       # map (\<lambda>location. Attempt DESTRUCTOR [(fst location, snd location + 3)] 1)
           (scored_on_locations (on_action_frame self breaches))
       @ rest"
    using issued_prefix by blast
  ultimately show "Attempt DESTRUCTOR [(fst (breach_location b), snd (breach_location b) + 3)] 1
           \<in> set (issued (funnel_strategy L (on_action_frame self breaches) g))"
    by auto
qed

theorem breach_logged_raw_built_translated_witness:
  "scored_on_locations (on_action_frame (on_game_start damage16) [opponent_breach (10, 2)])
     = [(10, 2)]
   \<and> Attempt DESTRUCTOR [(10, 5)] 1
       \<in> set (issued (funnel_strategy arena_lib
                 (on_action_frame (on_game_start damage16) [opponent_breach (10, 2)])
                 (GameState damage16 (1, calm 5))))"
  using breach_logged_raw_built_translated
    [of "on_game_start damage16" "[opponent_breach (10, 2)]"
        arena_lib "GameState damage16 (1, calm 5)"]
  by (simp add: on_game_start_def opponent_breach_def)

text \<open>C3 as stated fails: the entry logged for a breach at \<open>(10, 2)\<close> is \<open>(10, 2)\<close>, not
  \<open>(10, 5)\<close>.\<close>

theorem breach_log_entry_counterexample:
  "scored_on_locations (on_action_frame (on_game_start damage16) [opponent_breach (10, 2)])
     \<noteq> [(10, 5)]"
  by (simp add: on_game_start_def opponent_breach_def)

section \<open>Facts of the example engine\<close>

lemma arena_lib_simps [simp]:
  "get_resource_BITS arena_lib = bits"
  "find_path_to_edge arena_lib b location =
     (if location \<in> set (walled b) then [] else [location, (fst location, snd location + 1)])"
  "get_attackers arena_lib b location player =
     map (\<lambda>d. enemy_destructor)
       (filter (\<lambda>d. (fst d - fst location)\<^sup>2 + (snd d - snd location)\<^sup>2 \<le> 12) (enemy_destructors b))"
  "board_after_spawn arena_lib u locations num b =
     (if u = PING \<or> u = EMP \<or> u = SCRAMBLER
      then b\<lparr>bits := bits b - real_of_int (max 0 (min num \<lfloor>bits b\<rfloor>))\<rparr> else b)"
  "randint_is_1 arena_lib t c = False"
  by (simp_all add: arena_lib_def)

lemma arena_keeps_bits: "stationary_keeps_bits arena_lib"
  by (simp add: stationary_keeps_bits_def)

lemma arena_board [simp]:
  "board (build_defenses arena_lib g) = board g"
  "board (build_right_funnel arena_lib g) = board g"
  "board (build_left_funnel arena_lib g) = board g"
  "board (build_additional_defenses arena_lib g) = board g"
  "board (build_better_tunnel arena_lib g) = board g"
  "board (build_defenses3 arena_lib g) = board g"
  by (simp_all add: build_defenses_def build_right_funnel_def build_left_funnel_def
        build_additional_defenses_def build_better_tunnel_def build_defenses3_def Let_def)

lemma arena_board_reactive [simp]:
  "board (build_reactive_defense arena_lib locs g) = board g"
  by (induction locs arbitrary: g) (simp_all add: Let_def)

section \<open>The risk score\<close>

lemma sum_list_const_damage:
  "\<forall>u\<in>set us. f u = (c::int) \<Longrightarrow> (\<Sum>u\<leftarrow>us. f u) = int (length us) * c"
  by (induction us) (simp_all add: algebra_simps)

lemma location_damage_sum:
  "location_damage L g location =
     (\<Sum>p\<leftarrow>find_path_to_edge L (board g) location.
        int (length (get_attackers L (board g) p 0)) * unit_damage g DESTRUCTOR)"
  by (simp add: location_damage_def path_damage_sum)

text \<open>
  C4. The risk score of an entry location is the sum, over the locations of its traced
  path, of the number of attackers reported there times the configured damage of a
  destructor; when the attackers reported are destructors (the stationary structures that
  attack), this is the sum of every such structure's own configured damage.
\<close>

theorem risk_score_sums_attacker_damage:
  "location_damage L g location =
     (\<Sum>p\<leftarrow>find_path_to_edge L (board g) location.
        int (length (get_attackers L (board g) p 0)) * unit_damage g DESTRUCTOR)
   \<and> ((\<forall>p\<in>set (find_path_to_edge L (board g) location).
         \<forall>u\<in>set (get_attackers L (board g) p 0). unit_type u = DESTRUCTOR) \<longrightarrow>
       location_damage L g location =
         (\<Sum>p\<leftarrow>find_path_to_edge L (board g) location.
            \<Sum>u\<leftarrow>get_attackers L (board g) p 0. unit_damage g (unit_type u)))"
proof (intro conjI impI)
  show "location_damage L g location =
     (\<Sum>p\<leftarrow>find_path_to_edge L (board g) location.
        int (length (get_attackers L (board g) p 0)) * unit_damage g DESTRUCTOR)"
    by (rule location_damage_sum)
next
  assume all: "\<forall>p\<in>set (find_path_to_edge L (board g) location).
         \<forall>u\<in>set (get_attackers L (board g) p 0). unit_type u = DESTRUCTOR"
  have "\<And>p. p \<in> set (find_path_to_edge L (board g) location) \<Longrightarrow>
          (\<Sum>u\<leftarrow>get_attackers L (board g) p 0. unit_damage g (unit_type u))
          = int (length (get_attackers L (board g) p 0)) * unit_damage g DESTRUCTOR"
    using all by (intro sum_list_const_damage) simp
  then have "map (\<lambda>p. \<Sum>u\<leftarrow>get_attackers L (board g) p 0. unit_damage g (unit_type u))
               (find_path_to_edge L (board g) location)
           = map (\<lambda>p. int (length (get_attackers L (board g) p 0)) * unit_damage g DESTRUCTOR)
               (find_path_to_edge L (board g) location)"
    by (intro map_cong refl)
  then show "location_damage L g location =
         (\<Sum>p\<leftarrow>find_path_to_edge L (board g) location.
            \<Sum>u\<leftarrow>get_attackers L (board g) p 0. unit_damage g (unit_type u))"
    unfolding location_damage_sum by (simp only:)
qed

theorem risk_score_sums_attacker_damage_witness:
  "find_path_to_edge arena_lib guarded_left (3, 10) = [(3, 10), (3, 11)]
   \<and> get_attackers arena_lib guarded_left (3, 10) 0 = [enemy_destructor]
   \<and> get_attackers arena_lib guarded_left (3, 11) 0 = [enemy_destructor]
   \<and> location_damage arena_lib (GameState damage16 (3, guarded_left)) (3, 10) = 32"
  using risk_score_sums_attacker_damage
    [of arena_lib "GameState damage16 (3, guarded_left)" "(3, 10)"]
  by (simp add: GameState_def guarded_left_def damage16_def enemy_destructor_def)

text \<open>
  C9. With a non-negative configured destructor damage, the risk score of every entry
  location is non-negative, and it does not decrease when the board gains attackers along
  the same path: on a board with the same path and at least as many attackers at every
  traversed location, the score is at least as high.
\<close>

theorem risk_score_nonneg_monotone:
  assumes "0 \<le> unit_damage g DESTRUCTOR"
  shows "0 \<le> location_damage L g location
       \<and> (\<forall>b'. find_path_to_edge L b' location = find_path_to_edge L (board g) location
              \<and> (\<forall>p\<in>set (find_path_to_edge L (board g) location).
                    length (get_attackers L (board g) p 0) \<le> length (get_attackers L b' p 0))
            \<longrightarrow> location_damage L g location \<le> location_damage L (g\<lparr>board := b'\<rparr>) location)"
proof (intro conjI allI impI)
  show "0 \<le> location_damage L g location"
    unfolding location_damage_sum using assms by (intro sum_list_nonneg) auto
next
  fix b'
  assume h: "find_path_to_edge L b' location = find_path_to_edge L (board g) location
              \<and> (\<forall>p\<in>set (find_path_to_edge L (board g) location).
                    length (get_attackers L (board g) p 0) \<le> length (get_attackers L b' p 0))"
  have "(\<Sum>p\<leftarrow>find_path_to_edge L (board g) location.
            int (length (get_attackers L (board g) p 0)) * unit_damage g DESTRUCTOR)
        \<le> (\<Sum>p\<leftarrow>find_path_to_edge L (board g) location.
            int (length (get_attackers L b' p 0)) * unit_damage g DESTRUCTOR)"
  proof (rule sum_list_mono)
    fix p assume "p \<in> set (find_path_to_edge L (board g) location)"
    with h have "int (length (get_attackers L (board g) p 0)) \<le> int (length (get_attackers L b' p 0))"
      by simp
    then show "int (length (get_attackers L (board g) p 0)) * unit_damage g DESTRUCTOR
        \<le> int (length (get_attackers L b' p 0)) * unit_damage g DESTRUCTOR"
      using assms by (rule mult_right_mono)
  qed
  then show "location_damage L g location \<le> location_damage L (g\<lparr>board := b'\<rparr>) location"
    unfolding location_damage_sum using h by simp
qed

theorem risk_score_nonneg_monotone_witness:
  "0 \<le> damage16 DESTRUCTOR
   \<and> location_damage arena_lib (GameState damage16 (3, calm 5)) (3, 10) = 0
   \<and> location_damage arena_lib (GameState damage16 (3, guarded_left)) (3, 10) = 32
   \<and> location_damage arena_lib (GameState damage16 (3, calm 5)) (3, 10)
       \<le> location_damage arena_lib ((GameState damage16 (3, calm 5))\<lparr>board := guarded_left\<rparr>) (3, 10)"
proof -
  have d: "0 \<le> unit_damage (GameState damage16 (3, calm 5)) DESTRUCTOR"
    by (simp add: GameState_def damage16_def)
  have h: "find_path_to_edge arena_lib guarded_left (3, 10)
             = find_path_to_edge arena_lib (board (GameState damage16 (3, calm 5))) (3, 10)
           \<and> (\<forall>p\<in>set (find_path_to_edge arena_lib (board (GameState damage16 (3, calm 5))) (3, 10)).
                 length (get_attackers arena_lib (board (GameState damage16 (3, calm 5))) p 0)
                 \<le> length (get_attackers arena_lib guarded_left p 0))"
    by (simp add: GameState_def calm_def guarded_left_def)
  from risk_score_nonneg_monotone[OF d, of arena_lib "(3, 10)"] h
  have "location_damage arena_lib (GameState damage16 (3, calm 5)) (3, 10)
       \<le> location_damage arena_lib ((GameState damage16 (3, calm 5))\<lparr>board := guarded_left\<rparr>) (3, 10)"
    by blast
  moreover have "location_damage arena_lib (GameState damage16 (3, calm 5)) (3, 10) = 0"
    by (simp add: location_damage_def GameState_def calm_def damage16_def)
  moreover have "location_damage arena_lib (GameState damage16 (3, guarded_left)) (3, 10) = 32"
    by (simp add: location_damage_def GameState_def guarded_left_def damage16_def)
  ultimately show ?thesis by (simp add: damage16_def)
qed

section \<open>What a turn does to the attributes\<close>

lemma least_damage_two_candidates:
  "\<exists>best. least_damage_spawn_location L g [(3, 10), (24, 10)] = Inr best
          \<and> (best = (3, 10) \<or> best = (24, 10))"
proof -
  obtain i where "least_damage_spawn_location L g [(3, 10), (24, 10)] = Inr ([(3, 10), (24, 10)] ! i)"
    "i < length [(3, 10), (24, 10) :: location]"
    using least_damage_first_min[of "[(3, 10), (24, 10)]" L g] by blast
  then show ?thesis by (cases i) (auto simp: less_Suc_eq_0_disj)
qed

lemma funnel_strategy_turn3:
  assumes "turn_number g = 3"
  shows "\<exists>best. (best = (3, 10) \<or> best = (24, 10))
     \<and> least_damage_spawn_location L
          (build_reactive_defense L (scored_on_locations self) (build_defenses L g))
          [(3, 10), (24, 10)] = Inr best
     \<and> funnel_strategy L self g =
         Inr (self\<lparr>best_location := Some best, funnel_left := False\<rparr>,
              build_right_funnel L
                (build_reactive_defense L (scored_on_locations self) (build_defenses L g)))"
proof -
  let ?g2 = "build_reactive_defense L (scored_on_locations self) (build_defenses L g)"
  obtain best where best: "least_damage_spawn_location L ?g2 [(3, 10), (24, 10)] = Inr best"
    "best = (3, 10) \<or> best = (24, 10)"
    using least_damage_two_candidates by blast
  then have "best \<noteq> (2, 11)" by auto
  with best assms show ?thesis
    by (intro exI[of _ best]) (simp add: funnel_strategy_def Let_def)
qed

lemma funnel_strategy_other_turn:
  assumes "turn_number g \<noteq> 3" "funnel_strategy L self g = Inr (self', g')"
  shows "self' = self"
  using assms
  by (auto simp: funnel_strategy_def Let_def split: if_splits option.splits)

lemma funnel_strategy_log:
  assumes "funnel_strategy L self g = Inr (self', g')"
  shows "scored_on_locations self' = scored_on_locations self \<and> config self' = config self"
proof (cases "turn_number g = 3")
  case True
  from funnel_strategy_turn3[OF True, of L self] assms show ?thesis by auto
next
  case False
  from funnel_strategy_other_turn[OF False assms] show ?thesis by simp
qed

lemma GameState_simps [simp]:
  "turn_number (GameState cfg ts) = fst ts"
  "unit_damage (GameState cfg ts) = cfg"
  "board (GameState cfg ts) = snd ts"
  "attempts (GameState cfg ts) = []"
  by (simp_all add: GameState_def)

lemma on_turn_log:
  assumes "on_turn L self ts = Inr (self', submitted)"
  shows "scored_on_locations self' = scored_on_locations self \<and> config self' = config self"
  using assms funnel_strategy_log[of L self "GameState (config self) ts"]
  by (auto simp: on_turn_def Let_def split: sum.splits prod.splits)

text \<open>
  C7. Over any run of turns and action frames that the process survives, the log is the
  old log followed by the locations of the breaches whose owner is not the player itself
  (owner different from 1), in order of arrival: nothing is removed, nothing is merged, the
  length never decreases, and a turn leaves the log as it is.
\<close>

theorem scored_on_locations_append_only:
  assumes "run L self events = Inr self'"
  shows "scored_on_locations self' =
           scored_on_locations self
           @ concat (map (\<lambda>e. case e of
                                 Turn turn_state \<Rightarrow> []
                               | ActionFrame breaches \<Rightarrow>
                                   map breach_location (filter (\<lambda>b. breach_owner b \<noteq> 1) breaches))
                      events)
       \<and> length (scored_on_locations self) \<le> length (scored_on_locations self')"
proof -
  have "scored_on_locations self' =
           scored_on_locations self
           @ concat (map (\<lambda>e. case e of
                                 Turn turn_state \<Rightarrow> []
                               | ActionFrame breaches \<Rightarrow>
                                   map breach_location (filter (\<lambda>b. breach_owner b \<noteq> 1) breaches))
                      events)"
    using assms
  proof (induction events arbitrary: self)
    case Nil
    then show ?case by simp
  next
    case (Cons e events)
    show ?case
    proof (cases e)
      case (Turn ts)
      with Cons.prems obtain s1 sub where s1: "on_turn L self ts = Inr (s1, sub)"
        "run L s1 events = Inr self'"
        by (auto split: sum.splits)
      from Cons.IH[OF s1(2)] on_turn_log[OF s1(1)] Turn show ?thesis by simp
    next
      case (ActionFrame bs)
      with Cons.prems have "run L (on_action_frame self bs) events = Inr self'" by simp
      from Cons.IH[OF this] ActionFrame show ?thesis by (simp add: on_action_frame_log)
    qed
  qed
  then show ?thesis by simp
qed

theorem scored_on_locations_append_only_witness:
  "run arena_lib (on_game_start damage16)
     [ActionFrame [opponent_breach (10, 2), own_breach (5, 20)], Turn (1, calm 5),
      ActionFrame [opponent_breach (10, 2)]]
   = Inr ((on_game_start damage16)\<lparr>scored_on_locations := [(10, 2), (10, 2)]\<rparr>)
   \<and> length (scored_on_locations (on_game_start damage16)) \<le> length [(10, 2), (10, 2) :: location]"
proof -
  have r: "run arena_lib (on_game_start damage16)
     [ActionFrame [opponent_breach (10, 2), own_breach (5, 20)], Turn (1, calm 5),
      ActionFrame [opponent_breach (10, 2)]]
   = Inr ((on_game_start damage16)\<lparr>scored_on_locations := [(10, 2), (10, 2)]\<rparr>)"
    by (simp add: on_turn_def funnel_strategy_def on_game_start_def opponent_breach_def
          own_breach_def calm_def Let_def)
  from scored_on_locations_append_only[OF r] r show ?thesis by simp
qed

section \<open>The decision of turn 3\<close>

text \<open>
  C1 (the code departs from the claim). On turn 3 with no defender on either path, both
  candidates score 0 and the first one, \<open>(3, 10)\<close>, becomes the spawn location; yet the
  funnel is committed to the right (\<open>funnel_left = False\<close>, \<open>build_right_funnel\<close>), because
  the chosen location is compared with \<open>(2, 11)\<close>, which is neither candidate. With the left
  path guarded, \<open>(24, 10)\<close> is chosen and the committed funnel is the same one.
\<close>

theorem turn3_funnel_side_ignores_risk:
  "location_damage arena_lib (GameState damage16 (3, calm 5)) (3, 10) = 0
   \<and> location_damage arena_lib (GameState damage16 (3, calm 5)) (24, 10) = 0
   \<and> funnel_strategy arena_lib (on_game_start damage16) (GameState damage16 (3, calm 5))
       = Inr ((on_game_start damage16)\<lparr>best_location := Some (3, 10), funnel_left := False\<rparr>,
              build_right_funnel arena_lib
                (build_defenses arena_lib (GameState damage16 (3, calm 5))))
   \<and> location_damage arena_lib (GameState damage16 (3, guarded_left)) (3, 10) = 32
   \<and> location_damage arena_lib (GameState damage16 (3, guarded_left)) (24, 10) = 0
   \<and> funnel_strategy arena_lib (on_game_start damage16) (GameState damage16 (3, guarded_left))
       = Inr ((on_game_start damage16)\<lparr>best_location := Some (24, 10), funnel_left := False\<rparr>,
              build_right_funnel arena_lib
                (build_defenses arena_lib (GameState damage16 (3, guarded_left))))"
proof -
  have a: "location_damage arena_lib (GameState damage16 (3, calm 5)) (3, 10) = 0"
    "location_damage arena_lib (GameState damage16 (3, calm 5)) (24, 10) = 0"
    by (simp_all add: location_damage_def calm_def)
  have b: "location_damage arena_lib (GameState damage16 (3, guarded_left)) (3, 10) = 32"
    "location_damage arena_lib (GameState damage16 (3, guarded_left)) (24, 10) = 0"
    by (simp_all add: location_damage_def guarded_left_def damage16_def)
  have c: "funnel_strategy arena_lib (on_game_start damage16) (GameState damage16 (3, calm 5))
       = Inr ((on_game_start damage16)\<lparr>best_location := Some (3, 10), funnel_left := False\<rparr>,
              build_right_funnel arena_lib
                (build_defenses arena_lib (GameState damage16 (3, calm 5))))"
    by (simp add: funnel_strategy_def Let_def on_game_start_def least_damage_spawn_location_def
          location_damage_def calm_def)
  have d: "funnel_strategy arena_lib (on_game_start damage16) (GameState damage16 (3, guarded_left))
       = Inr ((on_game_start damage16)\<lparr>best_location := Some (24, 10), funnel_left := False\<rparr>,
              build_right_funnel arena_lib
                (build_defenses arena_lib (GameState damage16 (3, guarded_left))))"
    by (simp add: funnel_strategy_def Let_def on_game_start_def least_damage_spawn_location_def
          location_damage_def guarded_left_def damage16_def)
  from a b c d show ?thesis by simp
qed

section \<open>Candidates without a path\<close>

lemma location_damage_empty_path:
  "find_path_to_edge L (board g) location = [] \<Longrightarrow> location_damage L g location = 0"
  by (simp add: location_damage_def)

lemma location_damage_nonneg:
  "0 \<le> unit_damage g DESTRUCTOR \<Longrightarrow> 0 \<le> location_damage L g location"
  unfolding location_damage_sum by (intro sum_list_nonneg) auto

text \<open>
  C2 (as amended). A candidate whose traced path is empty scores 0. It is not excluded:
  with a non-negative configured destructor damage it is the location selected, unless an
  earlier candidate scores 0 as well. No error is raised.
\<close>

theorem empty_path_scores_zero_and_is_selected:
  assumes "0 \<le> unit_damage g DESTRUCTOR"
    and "i < length location_options"
    and "find_path_to_edge L (board g) (location_options ! i) = []"
    and "\<forall>j<i. location_damage L g (location_options ! j) \<noteq> 0"
  shows "location_damage L g (location_options ! i) = 0
       \<and> least_damage_spawn_location L g location_options = Inr (location_options ! i)"
proof -
  have zero: "location_damage L g (location_options ! i) = 0"
    using assms(3) by (rule location_damage_empty_path)
  from assms(2) have "location_options \<noteq> []" by auto
  from least_damage_first_min[OF this, of L g] obtain k where k:
    "least_damage_spawn_location L g location_options = Inr (location_options ! k)"
    "k < length location_options"
    "\<forall>j<length location_options.
        location_damage L g (location_options ! k) \<le> location_damage L g (location_options ! j)"
    "\<forall>j<k. location_damage L g (location_options ! k) < location_damage L g (location_options ! j)"
    by blast
  have "location_damage L g (location_options ! k) \<le> 0"
    using k(3) assms(2) zero by metis
  moreover have "0 \<le> location_damage L g (location_options ! k)"
    using assms(1) by (rule location_damage_nonneg)
  ultimately have kz: "location_damage L g (location_options ! k) = 0" by simp
  have "\<not> k < i" using assms(4) kz by blast
  moreover have "\<not> i < k" using k(4) kz zero by force
  ultimately have "k = i" by simp
  with k(1) zero show ?thesis by simp
qed

theorem empty_path_scores_zero_and_is_selected_witness:
  "find_path_to_edge arena_lib blocked_right (24, 10) = []
   \<and> location_damage arena_lib (GameState damage16 (3, blocked_right)) (3, 10) = 32
   \<and> location_damage arena_lib (GameState damage16 (3, blocked_right)) (24, 10) = 0
   \<and> least_damage_spawn_location arena_lib (GameState damage16 (3, blocked_right))
        [(3, 10), (24, 10)] = Inr (24, 10)"
proof -
  let ?g = "GameState damage16 (3, blocked_right)"
  have 1: "0 \<le> unit_damage ?g DESTRUCTOR" by (simp add: damage16_def)
  have 2: "1 < length [(3, 10), (24, 10) :: location]" by simp
  have 3: "find_path_to_edge arena_lib (board ?g) ([(3, 10), (24, 10)] ! 1) = []"
    by (simp add: blocked_right_def)
  have l: "location_damage arena_lib ?g (3, 10) = 32"
    by (simp add: location_damage_def blocked_right_def damage16_def)
  then have 4: "\<forall>j<1. location_damage arena_lib ?g ([(3, 10), (24, 10)] ! j) \<noteq> 0" by simp
  from empty_path_scores_zero_and_is_selected[OF 1 2 3 4] 3 l show ?thesis by simp
qed

text \<open>C2 as stated fails: the candidate without a path is the one selected.\<close>

theorem empty_path_candidate_selected_counterexample:
  "find_path_to_edge arena_lib blocked_right (24, 10) = []
   \<and> find_path_to_edge arena_lib blocked_right (3, 10) = [(3, 10), (3, 11)]
   \<and> least_damage_spawn_location arena_lib (GameState damage16 (3, blocked_right))
        [(3, 10), (24, 10)] = Inr (24, 10)"
  by (simp add: least_damage_spawn_location_def location_damage_def blocked_right_def damage16_def)

section \<open>The offensive spawn\<close>

lemma funnel_strategy_after_turn3:
  assumes "3 < turn_number g"
  shows "funnel_strategy L self g =
     (if 10 \<le> get_resource_BITS L (board (fortified L self g))
      then (case best_location self of
              None \<Rightarrow> Inl (AttributeError, fortified L self g)
            | Some location \<Rightarrow> Inr (self, attempt_spawn L PING [location] 1000 (fortified L self g)))
      else Inr (self, fortified L self g))"
  using assms by (simp add: funnel_strategy_def fortified_def Let_def split: option.split)

lemma spawn_keeps_bits:
  assumes "stationary_keeps_bits L" "u = DESTRUCTOR \<or> u = ENCRYPTOR"
  shows "get_resource_BITS L (board (attempt_spawn L u locations num g)) = get_resource_BITS L (board g)"
  using assms by (auto simp: stationary_keeps_bits_def)

lemma reactive_keeps_bits:
  assumes "stationary_keeps_bits L"
  shows "get_resource_BITS L (board (build_reactive_defense L locs g)) = get_resource_BITS L (board g)"
  by (induction locs arbitrary: g) (simp_all add: Let_def spawn_keeps_bits[OF assms] del: attempt_spawn_simps)

lemma fortified_bits:
  assumes "stationary_keeps_bits L"
  shows "get_resource_BITS L (board (fortified L self g)) = get_resource_BITS L (board g)"
  by (simp add: fortified_def Let_def build_defenses_def build_left_funnel_def
        build_right_funnel_def build_additional_defenses_def build_better_tunnel_def
        build_defenses3_def spawn_keeps_bits[OF assms] reactive_keeps_bits[OF assms]
        del: attempt_spawn_simps)

lemma reactive_units:
  "attempt_unit ` set (attempts (build_reactive_defense L locs g))
     \<subseteq> attempt_unit ` set (attempts g) \<union> {DESTRUCTOR}"
  by (auto simp: build_reactive_defense_attempts)

lemma fortified_units:
  "attempt_unit ` set (attempts (fortified L self g))
     \<subseteq> attempt_unit ` set (attempts g) \<union> {DESTRUCTOR, ENCRYPTOR}"
  using reactive_units[of L "scored_on_locations self" "build_defenses L g"]
  by (auto simp: fortified_def Let_def build_defenses_def build_better_tunnel_def build_defenses3_def)

lemma fortified_funnel:
  "Attempt ENCRYPTOR (if funnel_left self then left_funnel_locations else right_funnel_locations) 1
     \<in> set (attempts (fortified L self g))"
  by (simp add: fortified_def Let_def build_better_tunnel_def build_defenses3_def)

text \<open>
  C6. On a turn after turn 3 with a committed spawn location, and an engine whose
  stationary placements leave the pool for mobile units alone, planning completes and an
  attempt to spawn 1000 pings at the committed location is issued if and only if the pool
  is at least 10; no other ping spawn is attempted.
\<close>

theorem offensive_spawn_iff_pool_at_least_10:
  assumes "stationary_keeps_bits L"
    and "3 < fst turn_state"
    and "best_location self = Some location"
  shows "\<exists>submitted. on_turn L self turn_state = Inr (self, submitted)
           \<and> (Attempt PING [location] 1000 \<in> set submitted
                \<longleftrightarrow> 10 \<le> get_resource_BITS L (snd turn_state))
           \<and> (\<forall>a\<in>set submitted. attempt_unit a = PING \<longrightarrow> a = Attempt PING [location] 1000)"
proof -
  let ?g = "GameState (config self) turn_state"
  let ?f = "fortified L self ?g"
  have bits: "get_resource_BITS L (board ?f) = get_resource_BITS L (snd turn_state)"
    using fortified_bits[OF assms(1), of self ?g] by simp
  have noping: "\<forall>a\<in>set (attempts ?f). attempt_unit a \<noteq> PING"
    using fortified_units[of L self ?g] by auto
  have fs: "funnel_strategy L self ?g =
     (if 10 \<le> get_resource_BITS L (snd turn_state)
      then Inr (self, attempt_spawn L PING [location] 1000 ?f)
      else Inr (self, ?f))"
    using funnel_strategy_after_turn3[of ?g L self] assms(2,3) bits by simp
  show ?thesis
  proof (cases "10 \<le> get_resource_BITS L (snd turn_state)")
    case True
    then have "on_turn L self turn_state = Inr (self, attempts ?f @ [Attempt PING [location] 1000])"
      by (simp add: on_turn_def Let_def fs)
    with True noping show ?thesis by auto
  next
    case False
    then have "on_turn L self turn_state = Inr (self, attempts ?f)"
      by (simp add: on_turn_def Let_def fs)
    moreover have "Attempt PING [location] 1000 \<notin> set (attempts ?f)"
      using noping by force
    ultimately show ?thesis using False noping by auto
  qed
qed

theorem offensive_spawn_iff_pool_at_least_10_witness:
  "stationary_keeps_bits arena_lib
   \<and> (\<exists>submitted.
         on_turn arena_lib ((on_game_start damage16)\<lparr>best_location := Some (3, 10), funnel_left := False\<rparr>)
           (4, calm 9)
         = Inr ((on_game_start damage16)\<lparr>best_location := Some (3, 10), funnel_left := False\<rparr>, submitted)
         \<and> Attempt PING [(3, 10)] 1000 \<notin> set submitted)
   \<and> (\<exists>submitted.
         on_turn arena_lib ((on_game_start damage16)\<lparr>best_location := Some (3, 10), funnel_left := False\<rparr>)
           (4, calm 10)
         = Inr ((on_game_start damage16)\<lparr>best_location := Some (3, 10), funnel_left := False\<rparr>, submitted)
         \<and> Attempt PING [(3, 10)] 1000 \<in> set submitted)"
proof -
  let ?self = "(on_game_start damage16)\<lparr>best_location := Some (3, 10), funnel_left := False\<rparr>"
  have b: "best_location ?self = Some (3, 10)" by simp
  have t9: "3 < fst (4 :: int, calm 9)" and t10: "3 < fst (4 :: int, calm 10)" by simp_all
  from offensive_spawn_iff_pool_at_least_10[OF arena_keeps_bits t9 b]
  have "\<exists>submitted. on_turn arena_lib ?self (4, calm 9) = Inr (?self, submitted)
         \<and> Attempt PING [(3, 10)] 1000 \<notin> set submitted"
    by (auto simp: calm_def)
  moreover from offensive_spawn_iff_pool_at_least_10[OF arena_keeps_bits t10 b]
  have "\<exists>submitted. on_turn arena_lib ?self (4, calm 10) = Inr (?self, submitted)
         \<and> Attempt PING [(3, 10)] 1000 \<in> set submitted"
    by (auto simp: calm_def)
  ultimately show ?thesis using arena_keeps_bits by blast
qed

section \<open>The commitment over a match\<close>

lemma run_append:
  "run L self (xs @ ys) = (case run L self xs of Inl e \<Rightarrow> Inl e | Inr s \<Rightarrow> run L s ys)"
proof (induction xs arbitrary: self)
  case Nil
  show ?case by simp
next
  case (Cons e xs)
  show ?case by (cases e) (simp_all add: Cons.IH split: sum.splits)
qed

lemma on_turn_turn3:
  assumes "fst ts = 3"
  shows "\<exists>best submitted. (best = (3, 10) \<or> best = (24, 10))
     \<and> on_turn L self ts = Inr (self\<lparr>best_location := Some best, funnel_left := False\<rparr>, submitted)"
proof -
  from funnel_strategy_turn3[of "GameState (config self) ts" L self] assms
  obtain best where "best = (3, 10) \<or> best = (24, 10)"
    "funnel_strategy L self (GameState (config self) ts) =
       Inr (self\<lparr>best_location := Some best, funnel_left := False\<rparr>,
            build_right_funnel L (build_reactive_defense L (scored_on_locations self)
              (build_defenses L (GameState (config self) ts))))"
    by auto
  then show ?thesis by (auto simp: on_turn_def Let_def)
qed

lemma on_turn_other_turn:
  assumes "fst ts \<noteq> 3" "on_turn L self ts = Inr (self', submitted)"
  shows "self' = self"
  using assms funnel_strategy_other_turn[of "GameState (config self) ts" L self]
  by (auto simp: on_turn_def Let_def split: sum.splits prod.splits)

lemma on_turn_committed:
  assumes "3 < fst ts" "best_location self = Some location"
  shows "\<exists>submitted. on_turn L self ts = Inr (self, submitted)
     \<and> Attempt ENCRYPTOR (if funnel_left self then left_funnel_locations else right_funnel_locations) 1
         \<in> set submitted"
proof -
  let ?g = "GameState (config self) ts"
  have "funnel_strategy L self ?g =
     (if 10 \<le> get_resource_BITS L (board (fortified L self ?g))
      then Inr (self, attempt_spawn L PING [location] 1000 (fortified L self ?g))
      else Inr (self, fortified L self ?g))"
    using funnel_strategy_after_turn3[of ?g L self] assms by simp
  then show ?thesis
    using fortified_funnel[of self L ?g] by (auto simp: on_turn_def Let_def)
qed

lemma run_committed:
  assumes "best_location self = Some location" "\<forall>n\<in>set (turn_numbers events). 3 < n"
  shows "\<exists>self'. run L self events = Inr self' \<and> funnel_left self' = funnel_left self
           \<and> best_location self' = Some location"
  using assms
proof (induction events arbitrary: self)
  case Nil
  then show ?case by simp
next
  case (Cons e events)
  show ?case
  proof (cases e)
    case (Turn ts)
    with Cons.prems have "3 < fst ts" "\<forall>n\<in>set (turn_numbers events). 3 < n" by simp_all
    moreover from on_turn_committed[OF \<open>3 < fst ts\<close> Cons.prems(1), of L]
    obtain submitted where "on_turn L self ts = Inr (self, submitted)" by blast
    ultimately show ?thesis using Cons.IH[of self] Cons.prems(1) Turn by simp
  next
    case (ActionFrame bs)
    with Cons.prems have "\<forall>n\<in>set (turn_numbers events). 3 < n" by simp
    moreover have "best_location (on_action_frame self bs) = Some location"
      using Cons.prems(1) by simp
    ultimately show ?thesis using Cons.IH[of "on_action_frame self bs"] ActionFrame by simp
  qed
qed

lemma arena_board_fortified [simp]:
  "board (fortified arena_lib self g) = board g"
  by (simp add: fortified_def Let_def)

lemma fortified_encryptors:
  assumes "attempts g = []"
  shows "filter (\<lambda>a. attempt_unit a = ENCRYPTOR) (attempts (fortified L self g)) =
     [Attempt ENCRYPTOR
        (if funnel_left self
         then [(24, 11), (23, 11), (22, 10), (21, 9), (20, 8), (19, 7), (18, 6), (17, 5),
               (16, 4), (15, 3), (14, 2), (12, 3), (11, 4), (10, 5), (9, 6), (8, 7), (7, 8)]
         else [(3, 11), (4, 11), (5, 10), (6, 9), (7, 8), (8, 7), (9, 6), (10, 5), (11, 4),
               (12, 3), (13, 2), (14, 2), (15, 3), (16, 4), (17, 5), (18, 6), (19, 7),
               (20, 8)]) 1,
      Attempt ENCRYPTOR
        [(5, 11), (6, 10), (7, 9), (8, 8), (9, 7), (10, 6), (11, 5), (12, 4),
         (14, 3), (15, 4), (16, 5), (17, 6), (18, 7), (19, 8)] 1]"
proof -
  let ?g1 = "build_defenses L g"
  let ?g2 = "build_reactive_defense L (scored_on_locations self) ?g1"
  have g1: "filter (\<lambda>a. attempt_unit a = ENCRYPTOR) (attempts ?g1) = []"
    using assms by (simp add: build_defenses_def Let_def)
  have g2: "filter (\<lambda>a. attempt_unit a = ENCRYPTOR) (attempts ?g2) = []"
    by (simp add: build_reactive_defense_attempts g1 filter_map comp_def)
  show ?thesis
    by (simp add: fortified_def Let_def build_better_tunnel_def build_defenses3_def g2
          left_funnel_locations_def right_funnel_locations_def)
qed

lemma on_turn_committed_encryptors:
  assumes "3 < fst ts" "best_location self = Some location"
  shows "\<exists>submitted. on_turn L self ts = Inr (self, submitted)
     \<and> filter (\<lambda>a. attempt_unit a = ENCRYPTOR) submitted =
         filter (\<lambda>a. attempt_unit a = ENCRYPTOR)
           (attempts (fortified L self (GameState (config self) ts)))"
proof -
  let ?g = "GameState (config self) ts"
  have "funnel_strategy L self ?g =
     (if 10 \<le> get_resource_BITS L (board (fortified L self ?g))
      then Inr (self, attempt_spawn L PING [location] 1000 (fortified L self ?g))
      else Inr (self, fortified L self ?g))"
    using funnel_strategy_after_turn3[of ?g L self] assms by simp
  then show ?thesis by (auto simp: on_turn_def Let_def)
qed

text \<open>
  C5. From any committed state, to the left or to the right, with its spawn location
  chosen, let any turns numbered above 3 and any action frames follow. The process
  survives them, and the committed side and the spawn location are what they were. A
  further turn above 3 keeps them too, and the encryptor placements it attempts are the
  funnel of the committed side (the other funnel is not attempted) followed by the tunnel
  row. The decision turn always leaves such a committed state.
\<close>

theorem commitment_never_changes:
  "(best_location self = Some location
      \<and> (\<forall>n\<in>set (turn_numbers events). 3 < n) \<and> 3 < fst turn_state
    \<longrightarrow> (\<exists>self' submitted.
           run L self events = Inr self'
         \<and> funnel_left self' = funnel_left self
         \<and> best_location self' = Some location
         \<and> on_turn L self' turn_state = Inr (self', submitted)
         \<and> filter (\<lambda>a. attempt_unit a = ENCRYPTOR) submitted =
             [Attempt ENCRYPTOR
                (if funnel_left self
                 then [(24, 11), (23, 11), (22, 10), (21, 9), (20, 8), (19, 7), (18, 6),
                       (17, 5), (16, 4), (15, 3), (14, 2), (12, 3), (11, 4), (10, 5), (9, 6),
                       (8, 7), (7, 8)]
                 else [(3, 11), (4, 11), (5, 10), (6, 9), (7, 8), (8, 7), (9, 6), (10, 5),
                       (11, 4), (12, 3), (13, 2), (14, 2), (15, 3), (16, 4), (17, 5), (18, 6),
                       (19, 7), (20, 8)]) 1,
              Attempt ENCRYPTOR
                [(5, 11), (6, 10), (7, 9), (8, 8), (9, 7), (10, 6), (11, 5), (12, 4),
                 (14, 3), (15, 4), (16, 5), (17, 6), (18, 7), (19, 8)] 1]))
   \<and> (fst decision_turn = 3
    \<longrightarrow> (\<exists>self3 submitted3. on_turn L fresh decision_turn = Inr (self3, submitted3)
           \<and> best_location self3 \<noteq> None))"
proof (intro conjI impI)
  assume h: "best_location self = Some location
      \<and> (\<forall>n\<in>set (turn_numbers events). 3 < n) \<and> 3 < fst turn_state"
  from h run_committed[of self location events L]
  obtain self' where s: "run L self events = Inr self'" "funnel_left self' = funnel_left self"
    "best_location self' = Some location" by blast
  from h on_turn_committed_encryptors[OF _ s(3), of turn_state L]
  obtain submitted where t: "on_turn L self' turn_state = Inr (self', submitted)"
    "filter (\<lambda>a. attempt_unit a = ENCRYPTOR) submitted =
         filter (\<lambda>a. attempt_unit a = ENCRYPTOR)
           (attempts (fortified L self' (GameState (config self') turn_state)))" by blast
  have "attempts (GameState (config self') turn_state) = []" by simp
  from fortified_encryptors[OF this, of L self'] s t
  show "\<exists>self' submitted.
           run L self events = Inr self'
         \<and> funnel_left self' = funnel_left self
         \<and> best_location self' = Some location
         \<and> on_turn L self' turn_state = Inr (self', submitted)
         \<and> filter (\<lambda>a. attempt_unit a = ENCRYPTOR) submitted =
             [Attempt ENCRYPTOR
                (if funnel_left self
                 then [(24, 11), (23, 11), (22, 10), (21, 9), (20, 8), (19, 7), (18, 6),
                       (17, 5), (16, 4), (15, 3), (14, 2), (12, 3), (11, 4), (10, 5), (9, 6),
                       (8, 7), (7, 8)]
                 else [(3, 11), (4, 11), (5, 10), (6, 9), (7, 8), (8, 7), (9, 6), (10, 5),
                       (11, 4), (12, 3), (13, 2), (14, 2), (15, 3), (16, 4), (17, 5), (18, 6),
                       (19, 7), (20, 8)]) 1,
              Attempt ENCRYPTOR
                [(5, 11), (6, 10), (7, 9), (8, 8), (9, 7), (10, 6), (11, 5), (12, 4),
                 (14, 3), (15, 4), (16, 5), (17, 6), (18, 7), (19, 8)] 1]"
    by (intro exI[of _ self'] exI[of _ submitted]) simp
next
  assume "fst decision_turn = 3"
  from on_turn_turn3[OF this, of L fresh]
  show "\<exists>self3 submitted3. on_turn L fresh decision_turn = Inr (self3, submitted3)
           \<and> best_location self3 \<noteq> None"
    by auto
qed

theorem commitment_never_changes_witness:
  "(\<exists>self' submitted.
      run arena_lib ((on_game_start damage16)\<lparr>best_location := Some (24, 10)\<rparr>)
        [ActionFrame [opponent_breach (10, 2)], Turn (4, calm 12), Turn (5, calm 3)]
      = Inr self'
    \<and> funnel_left self' = True
    \<and> best_location self' = Some (24, 10)
    \<and> on_turn arena_lib self' (6, calm 10) = Inr (self', submitted)
    \<and> filter (\<lambda>a. attempt_unit a = ENCRYPTOR) submitted =
        [Attempt ENCRYPTOR
           [(24, 11), (23, 11), (22, 10), (21, 9), (20, 8), (19, 7), (18, 6), (17, 5),
            (16, 4), (15, 3), (14, 2), (12, 3), (11, 4), (10, 5), (9, 6), (8, 7), (7, 8)] 1,
         Attempt ENCRYPTOR
           [(5, 11), (6, 10), (7, 9), (8, 8), (9, 7), (10, 6), (11, 5), (12, 4),
            (14, 3), (15, 4), (16, 5), (17, 6), (18, 7), (19, 8)] 1])
   \<and> (\<exists>self' submitted.
      run arena_lib ((on_game_start damage16)\<lparr>best_location := Some (3, 10), funnel_left := False\<rparr>)
        [ActionFrame [opponent_breach (10, 2)], Turn (4, calm 12), Turn (5, calm 3)]
      = Inr self'
    \<and> funnel_left self' = False
    \<and> best_location self' = Some (3, 10)
    \<and> on_turn arena_lib self' (6, calm 10) = Inr (self', submitted)
    \<and> filter (\<lambda>a. attempt_unit a = ENCRYPTOR) submitted =
        [Attempt ENCRYPTOR
           [(3, 11), (4, 11), (5, 10), (6, 9), (7, 8), (8, 7), (9, 6), (10, 5), (11, 4),
            (12, 3), (13, 2), (14, 2), (15, 3), (16, 4), (17, 5), (18, 6), (19, 7),
            (20, 8)] 1,
         Attempt ENCRYPTOR
           [(5, 11), (6, 10), (7, 9), (8, 8), (9, 7), (10, 6), (11, 5), (12, 4),
            (14, 3), (15, 4), (16, 5), (17, 6), (18, 7), (19, 8)] 1])
   \<and> (\<exists>submitted3.
         on_turn arena_lib (on_game_start damage16) (3, calm 5)
         = Inr ((on_game_start damage16)\<lparr>best_location := Some (3, 10), funnel_left := False\<rparr>,
                submitted3))"
proof -
  let ?left = "(on_game_start damage16)\<lparr>best_location := Some (24, 10)\<rparr>"
  let ?right = "(on_game_start damage16)\<lparr>best_location := Some (3, 10), funnel_left := False\<rparr>"
  let ?events = "[ActionFrame [opponent_breach (10, 2)], Turn (4, calm 12), Turn (5, calm 3)]
                   :: arena event list"
  have later: "\<forall>n\<in>set (turn_numbers ?events). 3 < n" by simp
  have t6: "3 < fst (6 :: int, calm 10)" by simp
  have fl: "funnel_left ?left = True" "best_location ?left = Some (24, 10)"
    by (simp_all add: on_game_start_def)
  have fr: "funnel_left ?right = False" "best_location ?right = Some (3, 10)"
    by simp_all
  have l: "\<exists>self' submitted.
      run arena_lib ?left ?events = Inr self'
    \<and> funnel_left self' = True
    \<and> best_location self' = Some (24, 10)
    \<and> on_turn arena_lib self' (6, calm 10) = Inr (self', submitted)
    \<and> filter (\<lambda>a. attempt_unit a = ENCRYPTOR) submitted =
        [Attempt ENCRYPTOR
           [(24, 11), (23, 11), (22, 10), (21, 9), (20, 8), (19, 7), (18, 6), (17, 5),
            (16, 4), (15, 3), (14, 2), (12, 3), (11, 4), (10, 5), (9, 6), (8, 7), (7, 8)] 1,
         Attempt ENCRYPTOR
           [(5, 11), (6, 10), (7, 9), (8, 8), (9, 7), (10, 6), (11, 5), (12, 4),
            (14, 3), (15, 4), (16, 5), (17, 6), (18, 7), (19, 8)] 1]"
    using commitment_never_changes
            [where self = ?left and location = "(24, 10)" and events = ?events
               and turn_state = "(6, calm 10)" and L = arena_lib]
          later t6 fl
    by (simp only: simp_thms if_True)
  have r: "\<exists>self' submitted.
      run arena_lib ?right ?events = Inr self'
    \<and> funnel_left self' = False
    \<and> best_location self' = Some (3, 10)
    \<and> on_turn arena_lib self' (6, calm 10) = Inr (self', submitted)
    \<and> filter (\<lambda>a. attempt_unit a = ENCRYPTOR) submitted =
        [Attempt ENCRYPTOR
           [(3, 11), (4, 11), (5, 10), (6, 9), (7, 8), (8, 7), (9, 6), (10, 5), (11, 4),
            (12, 3), (13, 2), (14, 2), (15, 3), (16, 4), (17, 5), (18, 6), (19, 7),
            (20, 8)] 1,
         Attempt ENCRYPTOR
           [(5, 11), (6, 10), (7, 9), (8, 8), (9, 7), (10, 6), (11, 5), (12, 4),
            (14, 3), (15, 4), (16, 5), (17, 6), (18, 7), (19, 8)] 1]"
    using commitment_never_changes
            [where self = ?right and location = "(3, 10)" and events = ?events
               and turn_state = "(6, calm 10)" and L = arena_lib]
          later t6 fr
    by (simp only: simp_thms if_False)
  have t3: "\<exists>submitted3. on_turn arena_lib (on_game_start damage16) (3, calm 5)
         = Inr (?right, submitted3)"
    by (simp add: on_turn_def funnel_strategy_def Let_def on_game_start_def
          least_damage_spawn_location_def location_damage_def calm_def)
  have n3: "fst (3 :: int, calm 5) = 3" by simp
  have d: "\<exists>self3 submitted3.
             on_turn arena_lib (on_game_start damage16) (3, calm 5) = Inr (self3, submitted3)
           \<and> best_location self3 \<noteq> None"
    using commitment_never_changes
            [where L = arena_lib and decision_turn = "(3, calm 5)" and fresh = "on_game_start damage16"]
          n3
    by blast
  from l r t3 d show ?thesis by (intro conjI)
qed

section \<open>A match without the decision turn\<close>

lemma run_without_turn3:
  assumes "3 \<notin> set (turn_numbers events)" "run L self events = Inr self'"
  shows "best_location self' = best_location self"
  using assms
proof (induction events arbitrary: self)
  case Nil
  then show ?case by simp
next
  case (Cons e events)
  show ?case
  proof (cases e)
    case (Turn ts)
    with Cons.prems obtain s1 submitted where s1: "on_turn L self ts = Inr (s1, submitted)"
      "run L s1 events = Inr self'"
      by (auto split: sum.splits)
    from Cons.prems(1) Turn have "fst ts \<noteq> 3" "3 \<notin> set (turn_numbers events)" by auto
    from on_turn_other_turn[OF this(1) s1(1)] Cons.IH[OF this(2) s1(2)] show ?thesis by simp
  next
    case (ActionFrame bs)
    with Cons.prems have "3 \<notin> set (turn_numbers events)"
      "run L (on_action_frame self bs) events = Inr self'" by simp_all
    from Cons.IH[OF this] show ?thesis by simp
  qed
qed

lemma on_turn_candidate:
  assumes "best_location self = Some (3, 10) \<or> best_location self = Some (24, 10)"
    and "on_turn L self ts = Inr (self', submitted)"
  shows "best_location self' = Some (3, 10) \<or> best_location self' = Some (24, 10)"
proof (cases "fst ts = 3")
  case True
  from on_turn_turn3[OF True, of L self] assms(2) show ?thesis by auto
next
  case False
  from on_turn_other_turn[OF False assms(2)] assms(1) show ?thesis by simp
qed

lemma run_candidate:
  assumes "best_location self = Some (3, 10) \<or> best_location self = Some (24, 10)"
    and "run L self events = Inr self'"
  shows "best_location self' = Some (3, 10) \<or> best_location self' = Some (24, 10)"
  using assms
proof (induction events arbitrary: self)
  case Nil
  then show ?case by simp
next
  case (Cons e events)
  show ?case
  proof (cases e)
    case (Turn ts)
    with Cons.prems obtain s1 submitted where s1: "on_turn L self ts = Inr (s1, submitted)"
      "run L s1 events = Inr self'"
      by (auto split: sum.splits)
    from Cons.IH[OF on_turn_candidate[OF Cons.prems(1) s1(1)] s1(2)] show ?thesis .
  next
    case (ActionFrame bs)
    with Cons.prems have "run L (on_action_frame self bs) events = Inr self'" by simp
    moreover have "best_location (on_action_frame self bs) = Some (3, 10)
        \<or> best_location (on_action_frame self bs) = Some (24, 10)"
      using Cons.prems(1) by simp
    ultimately show ?thesis using Cons.IH by blast
  qed
qed

text \<open>
  C10 (as amended). Let the events since \<open>on_game_start\<close> hold no turn 3, the engine's
  stationary placements leave the pool for mobile units alone, and a turn above 3 come
  next. The spawn location is still unassigned; if the pool is at least 10, the spawn step
  reads it and planning fails with \<open>AttributeError\<close>; if the pool is below 10, the location
  is not read, planning completes and no ping spawn is attempted. Conversely, after any
  events among which a turn 3 was processed, the spawn location is \<open>(3, 10)\<close> or
  \<open>(24, 10)\<close>.
\<close>

theorem spawn_location_unassigned_without_turn3:
  "(stationary_keeps_bits L \<and> 3 \<notin> set (turn_numbers events)
      \<and> run L (on_game_start cfg) events = Inr self \<and> 3 < fst turn_state
    \<longrightarrow> best_location self = None
        \<and> (10 \<le> get_resource_BITS L (snd turn_state)
             \<longrightarrow> on_turn L self turn_state = Inl AttributeError)
        \<and> (get_resource_BITS L (snd turn_state) < 10
             \<longrightarrow> (\<exists>submitted. on_turn L self turn_state = Inr (self, submitted)
                     \<and> (\<forall>a\<in>set submitted. attempt_unit a \<noteq> PING))))
   \<and> (fst turn3 = 3 \<and> run L self0 (before @ Turn turn3 # after) = Inr self'
    \<longrightarrow> best_location self' = Some (3, 10) \<or> best_location self' = Some (24, 10))"
proof (intro conjI impI)
  assume h: "stationary_keeps_bits L \<and> 3 \<notin> set (turn_numbers events)
      \<and> run L (on_game_start cfg) events = Inr self \<and> 3 < fst turn_state"
  let ?g = "GameState (config self) turn_state"
  from h run_without_turn3[of events L "on_game_start cfg" self]
  show none: "best_location self = None" by (simp add: on_game_start_def)
  have bits: "get_resource_BITS L (board (fortified L self ?g)) = get_resource_BITS L (snd turn_state)"
    using h fortified_bits[of L self ?g] by simp
  have fs: "funnel_strategy L self ?g =
     (if 10 \<le> get_resource_BITS L (snd turn_state)
      then Inl (AttributeError, fortified L self ?g)
      else Inr (self, fortified L self ?g))"
    using funnel_strategy_after_turn3[of ?g L self] h none bits by simp
  {
    assume "10 \<le> get_resource_BITS L (snd turn_state)"
    then show "on_turn L self turn_state = Inl AttributeError"
      by (simp add: on_turn_def Let_def fs)
  }
  {
    assume "get_resource_BITS L (snd turn_state) < 10"
    then have "on_turn L self turn_state = Inr (self, attempts (fortified L self ?g))"
      by (simp add: on_turn_def Let_def fs)
    moreover have "\<forall>a\<in>set (attempts (fortified L self ?g)). attempt_unit a \<noteq> PING"
      using fortified_units[of L self ?g] by auto
    ultimately show "\<exists>submitted. on_turn L self turn_state = Inr (self, submitted)
                     \<and> (\<forall>a\<in>set submitted. attempt_unit a \<noteq> PING)"
      by blast
  }
next
  assume h: "fst turn3 = 3 \<and> run L self0 (before @ Turn turn3 # after) = Inr self'"
  then obtain s1 where s1: "run L self0 before = Inr s1" "run L s1 (Turn turn3 # after) = Inr self'"
    by (auto simp: run_append split: sum.splits)
  from on_turn_turn3[of turn3 L s1] h obtain best submitted where
    b: "best = (3, 10) \<or> best = (24, 10)"
       "on_turn L s1 turn3 = Inr (s1\<lparr>best_location := Some best, funnel_left := False\<rparr>, submitted)"
    by blast
  with s1(2) have r: "run L (s1\<lparr>best_location := Some best, funnel_left := False\<rparr>) after = Inr self'"
    by simp
  have "best_location (s1\<lparr>best_location := Some best, funnel_left := False\<rparr>) = Some (3, 10)
      \<or> best_location (s1\<lparr>best_location := Some best, funnel_left := False\<rparr>) = Some (24, 10)"
    using b(1) by auto
  from run_candidate[OF this r]
  show "best_location self' = Some (3, 10) \<or> best_location self' = Some (24, 10)" .
qed

theorem spawn_location_unassigned_without_turn3_witness:
  "run arena_lib (on_game_start damage16) [ActionFrame [opponent_breach (10, 2)], Turn (1, calm 5)]
     = Inr ((on_game_start damage16)\<lparr>scored_on_locations := [(10, 2)]\<rparr>)
   \<and> on_turn arena_lib ((on_game_start damage16)\<lparr>scored_on_locations := [(10, 2)]\<rparr>) (4, calm 10)
       = Inl AttributeError
   \<and> (\<exists>submitted.
         on_turn arena_lib ((on_game_start damage16)\<lparr>scored_on_locations := [(10, 2)]\<rparr>) (4, calm 9)
           = Inr ((on_game_start damage16)\<lparr>scored_on_locations := [(10, 2)]\<rparr>, submitted)
         \<and> Attempt PING [(3, 10)] 1000 \<notin> set submitted)
   \<and> run arena_lib (on_game_start damage16) ([Turn (1, calm 5)] @ Turn (3, calm 5) # [Turn (4, calm 12)])
       = Inr ((on_game_start damage16)\<lparr>best_location := Some (3, 10), funnel_left := False\<rparr>)"
proof -
  let ?events = "[ActionFrame [opponent_breach (10, 2)], Turn (1, calm 5)] :: arena event list"
  let ?self = "(on_game_start damage16)\<lparr>scored_on_locations := [(10, 2)]\<rparr>"
  let ?self3 = "(on_game_start damage16)\<lparr>best_location := Some (3, 10), funnel_left := False\<rparr>"
  have r: "run arena_lib (on_game_start damage16) ?events = Inr ?self"
    by (simp add: on_turn_def funnel_strategy_def Let_def on_game_start_def opponent_breach_def)
  have r3: "run arena_lib (on_game_start damage16)
              ([Turn (1, calm 5)] @ Turn (3, calm 5) # [Turn (4, calm 12)]) = Inr ?self3"
    by (simp add: on_turn_def funnel_strategy_def Let_def on_game_start_def
          least_damage_spawn_location_def location_damage_def calm_def)
  have no3: "3 \<notin> set (turn_numbers ?events)" by simp
  note t = spawn_location_unassigned_without_turn3
  from t[of arena_lib ?events damage16 ?self "(4, calm 10)"] arena_keeps_bits no3 r
  have a: "on_turn arena_lib ?self (4, calm 10) = Inl AttributeError"
    by (simp add: calm_def)
  from t[of arena_lib ?events damage16 ?self "(4, calm 9)"] arena_keeps_bits no3 r
  have "\<exists>submitted. on_turn arena_lib ?self (4, calm 9) = Inr (?self, submitted)
                     \<and> (\<forall>a\<in>set submitted. attempt_unit a \<noteq> PING)"
    by (simp add: calm_def)
  then have b: "\<exists>submitted. on_turn arena_lib ?self (4, calm 9) = Inr (?self, submitted)
         \<and> Attempt PING [(3, 10)] 1000 \<notin> set submitted"
    by force
  from r a b r3 show ?thesis by blast
qed

text \<open>C10 as stated fails: with no turn 3 processed and a pool of 9, turn 4 is planned
  without any failure.\<close>

theorem turn4_without_turn3_counterexample:
  "on_turn arena_lib (on_game_start damage16) (4, calm 9)
     = Inr (on_game_start damage16,
            attempts (fortified arena_lib (on_game_start damage16) (GameState damage16 (4, calm 9))))"
  by (simp add: on_turn_def funnel_strategy_after_turn3 Let_def on_game_start_def calm_def)

end
